theory Spec2Isabelle
  imports Complex_Main "HOL-Library.Multiset"
begin

section \<open>Paragraph reconstruction of \<open>pdf_processor_complete.py\<close>\<close>

text \<open>
  The development embeds the classes \<open>ParagraphParse\<close> and \<open>PDFProcessor\<close> of
  \<open>src/frontend/data/pdf_win/pdf_processor_complete.py\<close>.

  Conventions of the embedding:
  \<^item> a coordinate is a \<open>real\<close>: the arithmetic of the source is read as exact arithmetic
    on finite numbers (no rounding, no NaN, no infinity);
  \<^item> a Python character is its code point (\<open>ord\<close>), a Python \<open>str\<close> a list of code
    points;
  \<^item> a raised exception is the \<open>Inl\<close> of a result of type \<open>py_error + 'a\<close>;
  \<^item> the text blocks are dictionaries that the parser mutates in place through
    \<open>set_end\<close>. The list handed to \<open>run\<close> is the store; a unit refers to its block by
    the block's position in that list.
\<close>

subsection \<open>Data\<close>

datatype py_error = IndexError | ValueError

type_synonym pychar = nat
type_synonym pystr = "pychar list"
type_synonym point = "real \<times> real"
type_synonym bounds = "real \<times> real \<times> real \<times> real"

text \<open>
  A text block is the dictionary built in \<open>extract_text\<close> and \<open>_ocr_image\<close>:
  keys \<open>box\<close>, \<open>text\<close>, \<open>from\<close>, \<open>end\<close> and, for OCR blocks only, \<open>score\<close>.
\<close>

record text_block =
  tb_box :: "point list"
  tb_text :: pystr
  tb_from :: string
  tb_end :: pystr
  tb_score :: "real option"

text \<open>
  A unit is the tuple \<open>(bbox, (text[0], text[-1]), tb)\<close> of \<open>_get_units\<close>; the third
  component is the reference to the block.
\<close>

type_synonym punit = "point list \<times> (pychar \<times> pychar) \<times> nat"

subsection \<open>\<open>ParagraphParse._word_separator\<close>\<close>

definition cjk_ranges :: "(nat \<times> nat) list" where
  "cjk_ranges =
     [(0x4E00, 0x9FFF), (0x3040, 0x30FF), (0x1100, 0x11FF),
      (0x3130, 0x318F), (0xAC00, 0xD7AF), (0x3000, 0x303F),
      (0xFE30, 0xFE4F), (0xFF00, 0xFFEF)]"

definition is_cjk :: "pychar \<Rightarrow> bool" where
  "is_cjk character = list_ex (\<lambda>(start, end'). start \<le> character \<and> character \<le> end') cjk_ranges"

text \<open>\<open>str.startswith("P")\<close> on a category name.\<close>

fun startswith_P :: "string \<Rightarrow> bool" where
  "startswith_P [] = False"
| "startswith_P (c # cs) = (c = CHR ''P'')"

text \<open>
  \<open>unicodedata.category\<close> is the table of the Python standard library; it is the
  parameter \<open>category\<close> of the separator function.
\<close>

definition word_separator :: "(pychar \<Rightarrow> string) \<Rightarrow> pychar \<Rightarrow> pychar \<Rightarrow> pystr" where
  "word_separator category letter1 letter2 =
     (if is_cjk letter1 \<and> is_cjk letter2 then []
      else if letter1 = 45 then []
      else if startswith_P (category letter2) then []
      else [32])"

text \<open>
  The general categories of the printable ASCII characters, a fragment of the Unicode
  table that instantiates \<open>category\<close> in concrete evaluations.
\<close>

definition category_ascii :: "pychar \<Rightarrow> string" where
  "category_ascii c =
     (if 65 \<le> c \<and> c \<le> 90 then ''Lu''
      else if 97 \<le> c \<and> c \<le> 122 then ''Ll''
      else if 48 \<le> c \<and> c \<le> 57 then ''Nd''
      else if c = 32 then ''Zs''
      else if c = 40 \<or> c = 91 \<or> c = 123 then ''Ps''
      else if c = 41 \<or> c = 93 \<or> c = 125 then ''Pe''
      else if c = 45 then ''Pd''
      else if c = 95 then ''Pc''
      else if c \<in> {33, 34, 35, 37, 38, 39, 42, 44, 46, 47, 58, 59, 63, 64, 92} then ''Po''
      else if c \<in> {43, 60, 61, 62, 124, 126} then ''Sm''
      else if c = 36 then ''Sc''
      else if c = 94 \<or> c = 96 then ''Sk''
      else ''Cc'')"

subsection \<open>\<open>get_bbox_bounds\<close>\<close>

text \<open>\<open>min\<close> and \<open>max\<close> of a Python list raise \<open>ValueError\<close> on the empty list.\<close>

fun py_min :: "real list \<Rightarrow> py_error + real" where
  "py_min [] = Inl ValueError"
| "py_min (x # xs) = Inr (fold min xs x)"

fun py_max :: "real list \<Rightarrow> py_error + real" where
  "py_max [] = Inl ValueError"
| "py_max (x # xs) = Inr (fold max xs x)"

definition get_bbox_bounds :: "point list \<Rightarrow> py_error + bounds" where
  "get_bbox_bounds bbox =
     (let xs = map fst bbox; ys = map snd bbox in
      case py_min xs of Inl e \<Rightarrow> Inl e | Inr l \<Rightarrow>
     (case py_min ys of Inl e \<Rightarrow> Inl e | Inr t \<Rightarrow>
     (case py_max xs of Inl e \<Rightarrow> Inl e | Inr r \<Rightarrow>
     (case py_max ys of Inl e \<Rightarrow> Inl e | Inr b \<Rightarrow> Inr (l, t, r, b)))))"

subsection \<open>\<open>ParagraphParse._get_units\<close>\<close>

text \<open>
  \<open>text[0]\<close> and \<open>text[-1]\<close> raise \<open>IndexError\<close> on the empty string. The counter
  \<open>i\<close> is the position of the block in the list given to \<open>run\<close>.
\<close>

fun get_units_from :: "nat \<Rightarrow> text_block list \<Rightarrow> py_error + punit list" where
  "get_units_from i [] = Inr []"
| "get_units_from i (tb # tbs) =
     (case tb_text tb of
        [] \<Rightarrow> Inl IndexError
      | c # cs \<Rightarrow>
          (case get_units_from (Suc i) tbs of
             Inl e \<Rightarrow> Inl e
           | Inr units \<Rightarrow> Inr ((tb_box tb, (c, last (c # cs)), i) # units)))"

definition get_units :: "text_block list \<Rightarrow> py_error + punit list" where
  "get_units text_blocks = get_units_from 0 text_blocks"

subsection \<open>\<open>ParagraphParse._parse\<close>: the clustering scan\<close>

text \<open>
  The local variables of the scan. \<open>now_para\<close> is an alias of the last element of
  \<open>paras\<close>, so appending to it is appending to the last paragraph of \<open>paras\<close>.
\<close>

record scan_state =
  para_l :: real
  para_top :: real
  para_r :: real
  para_bottom :: real
  para_line_h :: real
  para_line_s :: "real option"
  paras :: "punit list list"
  paras_line_space :: "real option list"

definition init_state :: "punit \<Rightarrow> py_error + scan_state" where
  "init_state u =
     (case get_bbox_bounds (fst u) of
        Inl e \<Rightarrow> Inl e
      | Inr (l, t, r, b) \<Rightarrow>
          Inr \<lparr>para_l = l, para_top = t, para_r = r, para_bottom = b,
               para_line_h = b - t, para_line_s = None,
               paras = [[u]], paras_line_space = [None]\<rparr>)"

definition same_para :: "scan_state \<Rightarrow> real \<Rightarrow> real \<Rightarrow> real \<Rightarrow> bool" where
  "same_para st l r ls =
     (\<bar>para_l st - l\<bar> \<le> para_line_h st * (12 / 10) \<and>
      \<bar>para_r st - r\<bar> \<le> para_line_h st * (12 / 10) \<and>
      (case para_line_s st of
         None \<Rightarrow> True
       | Some s \<Rightarrow> ls < s + para_line_h st * (5 / 10)))"

definition parse_step :: "scan_state \<Rightarrow> punit \<Rightarrow> py_error + scan_state" where
  "parse_step st u =
     (case get_bbox_bounds (fst u) of
        Inl e \<Rightarrow> Inl e
      | Inr (l, top_i, r, bottom_i) \<Rightarrow>
          (let h = bottom_i - top_i;
               ls = top_i - para_bottom st;
               st' =
                 (if same_para st l r ls
                  then st\<lparr>para_l := (para_l st + l) / 2,
                          para_r := (para_r st + r) / 2,
                          para_line_h := (para_line_h st + h) / 2,
                          para_line_s :=
                            (case para_line_s st of
                               None \<Rightarrow> Some ls
                             | Some s \<Rightarrow> Some ((s + ls) / 2)),
                          paras := butlast (paras st) @ [last (paras st) @ [u]]\<rparr>
                  else st\<lparr>paras := paras st @ [[u]],
                          paras_line_space := paras_line_space st @ [para_line_s st],
                          para_l := l, para_r := r, para_line_h := h,
                          para_line_s := None\<rparr>)
           in Inr (st'\<lparr>para_bottom := bottom_i\<rparr>)))"

fun parse_scan :: "scan_state \<Rightarrow> punit list \<Rightarrow> py_error + scan_state" where
  "parse_scan st [] = Inr st"
| "parse_scan st (u # us) =
     (case parse_step st u of
        Inl e \<Rightarrow> Inl e
      | Inr st' \<Rightarrow> parse_scan st' us)"

text \<open>
  The key of the sort, \<open>get_bbox_bounds(a[0])[1]\<close>. The sort evaluates it on every unit
  and so raises \<open>ValueError\<close> when a box is empty; \<open>sort_units\<close> checks that first, and
  \<open>unit_top\<close> is only read on boxes with a point. \<open>list.sort\<close> is stable, as
  \<open>sort_key\<close> is.
\<close>

definition unit_top :: "punit \<Rightarrow> real" where
  "unit_top u = (case get_bbox_bounds (fst u) of Inr (l, t, r, b) \<Rightarrow> t | Inl e \<Rightarrow> 0)"

definition sort_units :: "punit list \<Rightarrow> py_error + punit list" where
  "sort_units units =
     (if list_ex (\<lambda>u. fst u = []) units then Inl ValueError
      else Inr (sort_key unit_top units))"

text \<open>The first half of \<open>_parse\<close>: the paragraphs, as lists of units.\<close>

definition parse_paras :: "punit list \<Rightarrow> py_error + punit list list" where
  "parse_paras units =
     (case units of
        [] \<Rightarrow> Inr []
      | _ # _ \<Rightarrow>
          (case sort_units units of
             Inl e \<Rightarrow> Inl e
           | Inr sorted_units \<Rightarrow>
               (case init_state (hd sorted_units) of
                  Inl e \<Rightarrow> Inl e
                | Inr st0 \<Rightarrow>
                    (case parse_scan st0 (tl sorted_units) of
                       Inl e \<Rightarrow> Inl e
                     | Inr st \<Rightarrow> Inr (paras st)))))"

subsection \<open>\<open>ParagraphParse._parse\<close>: writing the separators\<close>

text \<open>\<open>set_end\<close> is \<open>tb.update({"end": sep})\<close> on the block a unit refers to.\<close>

definition set_end :: "text_block list \<Rightarrow> nat \<Rightarrow> pystr \<Rightarrow> text_block list" where
  "set_end store i sep = store[i := (store ! i)\<lparr>tb_end := sep\<rparr>]"

text \<open>
  One paragraph: every unit but the last gets the separator computed from its last
  letter and the first letter of its successor, the last unit gets a line break.
  \<open>para[-1]\<close> raises \<open>IndexError\<close> on an empty paragraph.
\<close>

fun para_ends :: "(pychar \<Rightarrow> string) \<Rightarrow> punit list \<Rightarrow> text_block list \<Rightarrow> py_error + text_block list" where
  "para_ends category [] store = Inl IndexError"
| "para_ends category [u] store = Inr (set_end store (snd (snd u)) [10])"
| "para_ends category (u # v # us) store =
     para_ends category (v # us)
       (set_end store (snd (snd u))
          (word_separator category (snd (fst (snd u))) (fst (fst (snd v)))))"

fun paras_ends :: "(pychar \<Rightarrow> string) \<Rightarrow> punit list list \<Rightarrow> text_block list \<Rightarrow> py_error + text_block list" where
  "paras_ends category [] store = Inr store"
| "paras_ends category (para # ps) store =
     (case para_ends category para store of
        Inl e \<Rightarrow> Inl e
      | Inr store' \<Rightarrow> paras_ends category ps store')"

definition parse :: "(pychar \<Rightarrow> string) \<Rightarrow> punit list \<Rightarrow> text_block list \<Rightarrow> py_error + text_block list" where
  "parse category units store =
     (case parse_paras units of
        Inl e \<Rightarrow> Inl e
      | Inr ps \<Rightarrow> paras_ends category ps store)"

subsection \<open>\<open>ParagraphParse.run\<close>\<close>

definition run :: "(pychar \<Rightarrow> string) \<Rightarrow> text_block list \<Rightarrow> py_error + text_block list" where
  "run category text_blocks =
     (case get_units text_blocks of
        Inl e \<Rightarrow> Inl e
      | Inr units \<Rightarrow> parse category units text_blocks)"

subsection \<open>\<open>PDFProcessor\<close>: ignore areas\<close>

fun is_in_ignore_area :: "bounds \<Rightarrow> bounds list \<Rightarrow> bool" where
  "is_in_ignore_area bbox [] = False"
| "is_in_ignore_area (x0, y0, x1, y1) ((ax0, ay0, ax1, ay1) # ignore_areas) =
     (let center_x = (x0 + x1) / 2; center_y = (y0 + y1) / 2 in
      if ax0 \<le> center_x \<and> center_x \<le> ax1 \<and> ay0 \<le> center_y \<and> center_y \<le> ay1 then True
      else is_in_ignore_area (x0, y0, x1, y1) ignore_areas)"

text \<open>
  \<open>[box[0][0], box[0][1], box[2][0], box[2][1]]\<close>: reading point 0 or point 2 of a box
  with fewer than three points raises \<open>IndexError\<close>.
\<close>

fun block_bbox :: "text_block \<Rightarrow> py_error + bounds" where
  "block_bbox block =
     (case tb_box block of
        p0 # p1 # p2 # ps \<Rightarrow> Inr (fst p0, snd p0, fst p2, snd p2)
      | _ \<Rightarrow> Inl IndexError)"

fun filter_ignore_areas :: "text_block list \<Rightarrow> bounds list \<Rightarrow> py_error + text_block list" where
  "filter_ignore_areas [] ignore_areas = Inr []"
| "filter_ignore_areas (block # blocks) ignore_areas =
     (case block_bbox block of
        Inl e \<Rightarrow> Inl e
      | Inr bbox \<Rightarrow>
          (case filter_ignore_areas blocks ignore_areas of
             Inl e \<Rightarrow> Inl e
           | Inr filtered \<Rightarrow>
               Inr (if is_in_ignore_area bbox ignore_areas then filtered
                    else block # filtered)))"

subsection \<open>\<open>PDFProcessor\<close>: collecting the blocks of a page\<close>

text \<open>
  What the document and OCR libraries hand over: a native line is its \<open>bbox\<close> and the
  texts of its spans, an OCR item is a \<open>box\<close>, a \<open>text\<close> and a \<open>score\<close>.
\<close>

record native_line =
  nl_bbox :: bounds
  nl_spans :: "pystr list"

record ocr_item =
  oi_box :: "point list"
  oi_text :: pystr
  oi_score :: real

definition ocr_image :: "ocr_item list \<Rightarrow> text_block list" where
  "ocr_image ocr_result =
     map (\<lambda>item. \<lparr>tb_box = oi_box item, tb_text = oi_text item, tb_from = ''ocr'',
                   tb_end = [], tb_score = Some (oi_score item)\<rparr>) ocr_result"

text \<open>
  The four corners that \<open>extract_text\<close> builds from a line's \<open>bbox\<close>:
  \<open>[[b0, b1], [b2, b1], [b2, b3], [b0, b3]]\<close>.
\<close>

definition rect_box :: "real \<Rightarrow> real \<Rightarrow> real \<Rightarrow> real \<Rightarrow> point list" where
  "rect_box b0 b1 b2 b3 = [(b0, b1), (b2, b1), (b2, b3), (b0, b3)]"

text \<open>The loop over the lines of the text layer in \<open>extract_text\<close>.\<close>

fun native_blocks :: "native_line list \<Rightarrow> bounds list \<Rightarrow> text_block list" where
  "native_blocks [] ignore_areas = []"
| "native_blocks (line # lines) ignore_areas =
     (let text = concat (nl_spans line) in
      if text \<noteq> [] \<and> \<not> is_in_ignore_area (nl_bbox line) ignore_areas
      then (case nl_bbox line of (b0, b1, b2, b3) \<Rightarrow>
              \<lparr>tb_box = rect_box b0 b1 b2 b3, tb_text = text,
               tb_from = ''text'', tb_end = [], tb_score = None\<rparr>)
           # native_blocks lines ignore_areas
      else native_blocks lines ignore_areas)"

text \<open>The OCR half of \<open>extract_text\<close>: one filtered batch per recognised image.\<close>

fun ocr_blocks :: "ocr_item list list \<Rightarrow> bounds list \<Rightarrow> py_error + text_block list" where
  "ocr_blocks [] ignore_areas = Inr []"
| "ocr_blocks (ocr_result # rest) ignore_areas =
     (case filter_ignore_areas (ocr_image ocr_result) ignore_areas of
        Inl e \<Rightarrow> Inl e
      | Inr filtered \<Rightarrow>
          (case ocr_blocks rest ignore_areas of
             Inl e \<Rightarrow> Inl e
           | Inr more_blocks \<Rightarrow> Inr (filtered @ more_blocks)))"

text \<open>
  \<open>extract_text\<close> on a loaded page: \<open>lines\<close> are the lines of the text layer,
  \<open>ocr_results\<close> the recognition results of the page's images (of the one page
  pixmap in mode \<open>fullPage\<close>).
\<close>

definition extract_text ::
  "(pychar \<Rightarrow> string) \<Rightarrow> string \<Rightarrow> native_line list \<Rightarrow> ocr_item list list \<Rightarrow> bounds list
     \<Rightarrow> py_error + text_block list" where
  "extract_text category mode lines ocr_results ignore_areas =
     (let native = (if mode \<in> {''mixed'', ''textOnly''} then native_blocks lines ignore_areas
                    else [])
      in case (if mode \<in> {''mixed'', ''imageOnly'', ''fullPage''}
               then ocr_blocks ocr_results ignore_areas else Inr []) of
           Inl e \<Rightarrow> Inl e
         | Inr ocr \<Rightarrow> run category (native @ ocr))"

subsection \<open>Sample inputs\<close>

text \<open>
  The three observations of the end-to-end example: \<open>Hello\<close> in the box
  \<open>(0, 0, 100, 20)\<close>, \<open>World\<close> in \<open>(0, 22, 100, 42)\<close> and \<open>Footer\<close> in
  \<open>(0, 200, 100, 220)\<close>.
\<close>

definition hello_block :: text_block where
  "hello_block = \<lparr>tb_box = rect_box 0 0 100 20, tb_text = [72, 101, 108, 108, 111],
                   tb_from = ''text'', tb_end = [], tb_score = None\<rparr>"

definition world_block :: text_block where
  "world_block = \<lparr>tb_box = rect_box 0 22 100 42, tb_text = [87, 111, 114, 108, 100],
                   tb_from = ''text'', tb_end = [], tb_score = None\<rparr>"

definition footer_block :: text_block where
  "footer_block = \<lparr>tb_box = rect_box 0 200 100 220, tb_text = [70, 111, 111, 116, 101, 114],
                    tb_from = ''text'', tb_end = [], tb_score = None\<rparr>"

text \<open>An OCR result whose box has three points only, and one with two points.\<close>

definition three_point_item :: ocr_item where
  "three_point_item = \<lparr>oi_box = [(0, 0), (10, 0), (10, 10)], oi_text = [65], oi_score = 1\<rparr>"

definition three_point_block :: text_block where
  "three_point_block = \<lparr>tb_box = [(0, 0), (10, 0), (10, 10)], tb_text = [65],
                         tb_from = ''ocr'', tb_end = [], tb_score = Some 1\<rparr>"

definition two_point_block :: text_block where
  "two_point_block = \<lparr>tb_box = [(0, 0), (10, 10)], tb_text = [65],
                       tb_from = ''ocr'', tb_end = [], tb_score = Some 1\<rparr>"

text \<open>
  The units of these blocks, a third line \<open>(0, 60, 100, 80)\<close> that lies 18 below
  \<open>World\<close>, the scan states after one and after two lines, a box of height zero with
  a line of the same margins below it, and the lines of the text layer that give the
  three blocks of the example.
\<close>

definition hello_unit :: punit where
  "hello_unit = (rect_box 0 0 100 20, (72, 111), 0)"

definition world_unit :: punit where
  "world_unit = (rect_box 0 22 100 42, (87, 100), 1)"

definition far_unit :: punit where
  "far_unit = (rect_box 0 60 100 80, (70, 114), 2)"

definition two_line_state :: scan_state where
  "two_line_state =
     \<lparr>para_l = 0, para_top = 0, para_r = 100, para_bottom = 42, para_line_h = 20,
      para_line_s = Some 2, paras = [[hello_unit, world_unit]], paras_line_space = [None]\<rparr>"

definition flat_block :: text_block where
  "flat_block = \<lparr>tb_box = rect_box 0 0 100 0, tb_text = [65],
                  tb_from = ''ocr'', tb_end = [], tb_score = Some 1\<rparr>"

definition next_block :: text_block where
  "next_block = \<lparr>tb_box = rect_box 0 5 100 25, tb_text = [66],
                  tb_from = ''ocr'', tb_end = [], tb_score = Some 1\<rparr>"

definition flat_unit :: punit where
  "flat_unit = (rect_box 0 0 100 0, (65, 65), 0)"

definition next_unit :: punit where
  "next_unit = (rect_box 0 5 100 25, (66, 66), 1)"

definition hello_line :: native_line where
  "hello_line = \<lparr>nl_bbox = (0, 0, 100, 20), nl_spans = [[72, 101, 108], [108, 111]]\<rparr>"

definition world_line :: native_line where
  "world_line = \<lparr>nl_bbox = (0, 22, 100, 42), nl_spans = [[87, 111, 114, 108, 100]]\<rparr>"

definition footer_line :: native_line where
  "footer_line = \<lparr>nl_bbox = (0, 200, 100, 220), nl_spans = [[70, 111, 111, 116, 101, 114]]\<rparr>"
definition one_line_state :: scan_state where
  "one_line_state =
     \<lparr>para_l = 0, para_top = 0, para_r = 100, para_bottom = 20, para_line_h = 20,
      para_line_s = None, paras = [[hello_unit]], paras_line_space = [None]\<rparr>"

definition flat_state :: scan_state where
  "flat_state =
     \<lparr>para_l = 0, para_top = 0, para_r = 100, para_bottom = 0, para_line_h = 0,
      para_line_s = None, paras = [[flat_unit]], paras_line_space = [None]\<rparr>"

text \<open>An OCR result and a line of the text layer with empty text.\<close>

definition empty_text_item :: ocr_item where
  "empty_text_item = \<lparr>oi_box = rect_box 0 0 10 10, oi_text = [], oi_score = 1\<rparr>"

definition empty_text_line :: native_line where
  "empty_text_line = \<lparr>nl_bbox = (0, 0, 10, 10), nl_spans = [[]]\<rparr>"

text \<open>
  A line with the margins of \<open>Hello\<close> that lies 980 below it, and its unit.
\<close>

definition distant_block :: text_block where
  "distant_block = \<lparr>tb_box = rect_box 0 1000 100 1020, tb_text = [87, 111, 114, 108, 100],
                     tb_from = ''text'', tb_end = [], tb_score = None\<rparr>"

definition distant_unit :: punit where
  "distant_unit = (rect_box 0 1000 100 1020, (87, 100), 1)"

section \<open>Properties\<close>

text \<open>The equations that evaluate the model on a concrete input.\<close>

lemmas eval_defs = run_def get_units_def parse_def parse_paras_def sort_units_def unit_top_def
  get_bbox_bounds_def init_state_def parse_step_def same_para_def set_end_def word_separator_def
  is_cjk_def cjk_ranges_def extract_text_def ocr_image_def Let_def

subsection \<open>The word separator\<close>

lemma is_cjk_ranges:
  "is_cjk c \<longleftrightarrow>
     (0x4E00 \<le> c \<and> c \<le> 0x9FFF) \<or> (0x3040 \<le> c \<and> c \<le> 0x30FF) \<or>
     (0x1100 \<le> c \<and> c \<le> 0x11FF) \<or> (0x3130 \<le> c \<and> c \<le> 0x318F) \<or>
     (0xAC00 \<le> c \<and> c \<le> 0xD7AF) \<or> (0x3000 \<le> c \<and> c \<le> 0x303F) \<or>
     (0xFE30 \<le> c \<and> c \<le> 0xFE4F) \<or> (0xFF00 \<le> c \<and> c \<le> 0xFFEF)"
  by (simp add: is_cjk_def cjk_ranges_def)

lemma startswith_P_iff: "startswith_P s \<longleftrightarrow> (\<exists>cs. s = CHR ''P'' # cs)"
  by (cases s) auto

text \<open>
  Claim C2. A character is CJK exactly when its code point lies in one of the eight
  ranges of the source. The separator of \<open>(c1, c2)\<close> is empty when both are CJK;
  otherwise empty when \<open>c1\<close> is the hyphen (code point 45); otherwise empty when the
  general category of \<open>c2\<close> starts with \<open>P\<close>; and a single space (code point 32) in
  every remaining case, the rules being tried in that order.
\<close>

theorem word_separator_rule:
  "(is_cjk c \<longleftrightarrow>
      (0x4E00 \<le> c \<and> c \<le> 0x9FFF) \<or> (0x3040 \<le> c \<and> c \<le> 0x30FF) \<or>
      (0x1100 \<le> c \<and> c \<le> 0x11FF) \<or> (0x3130 \<le> c \<and> c \<le> 0x318F) \<or>
      (0xAC00 \<le> c \<and> c \<le> 0xD7AF) \<or> (0x3000 \<le> c \<and> c \<le> 0x303F) \<or>
      (0xFE30 \<le> c \<and> c \<le> 0xFE4F) \<or> (0xFF00 \<le> c \<and> c \<le> 0xFFEF)) \<and>
   word_separator category c1 c2 =
     (if is_cjk c1 \<and> is_cjk c2 then []
      else if c1 = 45 then []
      else if (\<exists>cs. category c2 = CHR ''P'' # cs) then []
      else [32])"
  unfolding word_separator_def startswith_P_iff using is_cjk_ranges [of c] by simp

theorem word_separator_rule_witness:
  "word_separator category_ascii 0x4F60 0x597D = [] \<and>
   word_separator category_ascii 45 0x597D = [] \<and>
   word_separator category_ascii 45 97 = [] \<and>
   word_separator category_ascii 0x597D 44 = [] \<and>
   word_separator category_ascii 111 87 = [32] \<and>
   word_separator category_ascii 0x597D 87 = [32]"
  using word_separator_rule [of "0x4F60" category_ascii "0x4F60" "0x597D"]
        word_separator_rule [of "0x597D" category_ascii 45 "0x597D"]
        word_separator_rule [of 97 category_ascii 45 97]
        word_separator_rule [of 44 category_ascii "0x597D" 44]
        word_separator_rule [of 111 category_ascii 111 87]
        word_separator_rule [of 87 category_ascii "0x597D" 87]
  by (simp add: category_ascii_def)

subsection \<open>Ignore areas\<close>


lemma block_bbox_ok:
  "3 \<le> length (tb_box b) \<Longrightarrow>
   block_bbox b = Inr (fst (tb_box b ! 0), snd (tb_box b ! 0), fst (tb_box b ! 2), snd (tb_box b ! 2))"
  by (auto split: list.splits)

lemma block_bbox_err: "length (tb_box b) < 3 \<Longrightarrow> block_bbox b = Inl IndexError"
  by (auto split: list.splits)

lemma block_bbox_Inl_iff: "block_bbox b = Inl e \<longleftrightarrow> e = IndexError \<and> length (tb_box b) < 3"
  by (auto split: list.splits)

lemma filter_ignore_areas_ok:
  "\<forall>b \<in> set blocks. 3 \<le> length (tb_box b) \<Longrightarrow>
   filter_ignore_areas blocks areas =
     Inr (filter (\<lambda>b. \<not> is_in_ignore_area
            (fst (tb_box b ! 0), snd (tb_box b ! 0), fst (tb_box b ! 2), snd (tb_box b ! 2)) areas) blocks)"
proof (induction blocks)
  case Nil
  then show ?case by simp
next
  case (Cons b bs)
  then have "3 \<le> length (tb_box b)" by simp
  from block_bbox_ok [OF this] Cons show ?case by (simp del: block_bbox.simps)
qed

lemma filter_ignore_areas_err:
  "filter_ignore_areas blocks areas = Inl e \<longleftrightarrow>
     e = IndexError \<and> (\<exists>b \<in> set blocks. length (tb_box b) < 3)"
proof (induction blocks)
  case Nil
  then show ?case by simp
next
  case (Cons b bs)
  show ?case
  proof (cases "block_bbox b")
    case (Inl e')
    then show ?thesis using block_bbox_Inl_iff [of b e'] by (auto simp del: block_bbox.simps)
  next
    case (Inr bb)
    then have "\<not> length (tb_box b) < 3" using block_bbox_err [of b] by auto
    with Inr Cons show ?thesis by (auto simp del: block_bbox.simps split: sum.splits)
  qed
qed



text \<open>
  The claim C6 as stated fails: an OCR result with a three-point box passes the filter
  and is handed to \<open>run\<close>, which gives it its line break.
\<close>

theorem collector_keeps_three_point_box:
  "length (tb_box three_point_block) < 4 \<and>
   ocr_image [three_point_item] = [three_point_block] \<and>
   filter_ignore_areas [three_point_block] [] = Inr [three_point_block] \<and>
   extract_text category_ascii ''imageOnly'' [] [[three_point_item]] [] =
     Inr [three_point_block\<lparr>tb_end := [10]\<rparr>]"
  by (simp add: three_point_block_def three_point_item_def eval_defs)

text \<open>
  Claim C6, as the code has it. The collector has no check of the geometry. Its filter
  raises \<open>IndexError\<close> exactly when some box has fewer than three points (it reads the
  points 0 and 2); when it returns, it returns blocks of its input, and every block it
  left out has its centre in an ignore area. So a block is never excluded for having
  fewer than four points.
\<close>

theorem filter_excludes_only_ignored:
  "(filter_ignore_areas blocks areas = Inl IndexError \<longleftrightarrow>
      (\<exists>b \<in> set blocks. length (tb_box b) < 3)) \<and>
   (\<forall>out. filter_ignore_areas blocks areas = Inr out \<longrightarrow>
      set out \<subseteq> set blocks \<and>
      (\<forall>b \<in> set blocks. b \<notin> set out \<longrightarrow>
         (\<exists>bb. block_bbox b = Inr bb \<and> is_in_ignore_area bb areas)))"
proof (intro conjI allI impI)
  show "filter_ignore_areas blocks areas = Inl IndexError \<longleftrightarrow>
          (\<exists>b \<in> set blocks. length (tb_box b) < 3)"
    by (simp add: filter_ignore_areas_err)
next
  fix out assume out: "filter_ignore_areas blocks areas = Inr out"
  have all3: "\<forall>b \<in> set blocks. 3 \<le> length (tb_box b)"
  proof (rule ccontr)
    assume "\<not> ?thesis"
    then have "\<exists>b \<in> set blocks. length (tb_box b) < 3" by (simp add: not_le)
    then have "filter_ignore_areas blocks areas = Inl IndexError"
      by (simp add: filter_ignore_areas_err)
    with out show False by simp
  qed
  from filter_ignore_areas_ok [OF all3, of areas] out
  have eq: "out = filter (\<lambda>b. \<not> is_in_ignore_area
              (fst (tb_box b ! 0), snd (tb_box b ! 0), fst (tb_box b ! 2), snd (tb_box b ! 2)) areas)
            blocks"
    by simp
  show "set out \<subseteq> set blocks" unfolding eq by auto
  show "\<forall>b \<in> set blocks. b \<notin> set out \<longrightarrow>
          (\<exists>bb. block_bbox b = Inr bb \<and> is_in_ignore_area bb areas)"
  proof (intro ballI impI)
    fix b assume b: "b \<in> set blocks" and nb: "b \<notin> set out"
    from b all3 have "3 \<le> length (tb_box b)" by simp
    from block_bbox_ok [OF this] b nb show "\<exists>bb. block_bbox b = Inr bb \<and> is_in_ignore_area bb areas"
      unfolding eq by (auto simp del: block_bbox.simps)
  qed
qed

theorem filter_excludes_only_ignored_witness:
  "filter_ignore_areas [two_point_block] [] = Inl IndexError \<and>
   (\<exists>b \<in> set [two_point_block]. length (tb_box b) < 3) \<and>
   filter_ignore_areas [three_point_block, footer_block] [(0, 190, 200, 230)] = Inr [three_point_block] \<and>
   set [three_point_block] \<subseteq> set [three_point_block, footer_block] \<and>
   footer_block \<in> set [three_point_block, footer_block] \<and> footer_block \<notin> set [three_point_block] \<and>
   (\<exists>bb. block_bbox footer_block = Inr bb \<and> is_in_ignore_area bb [(0, 190, 200, 230)])"
  using filter_excludes_only_ignored [of "[two_point_block]" "[]"]
        filter_excludes_only_ignored [of "[three_point_block, footer_block]" "[(0, 190, 200, 230)]"]
  by (simp add: two_point_block_def three_point_block_def footer_block_def rect_box_def)

subsection \<open>Bounding boxes\<close>

lemma get_bbox_bounds_Nil: "get_bbox_bounds [] = Inl ValueError"
  by (simp add: get_bbox_bounds_def)

lemma get_bbox_bounds_Cons:
  "get_bbox_bounds (p # ps) =
     Inr (fold min (map fst ps) (fst p), fold min (map snd ps) (snd p),
          fold max (map fst ps) (fst p), fold max (map snd ps) (snd p))"
  by (simp add: get_bbox_bounds_def)

lemma get_bbox_bounds_Inl_iff: "get_bbox_bounds bbox = Inl e \<longleftrightarrow> e = ValueError \<and> bbox = []"
  by (cases bbox) (auto simp: get_bbox_bounds_Nil get_bbox_bounds_Cons)

lemma get_bbox_bounds_total:
  "bbox \<noteq> [] \<Longrightarrow> \<exists>l t r b. get_bbox_bounds bbox = Inr (l, t, r, b)"
  by (cases bbox) (auto simp: get_bbox_bounds_Cons)

lemma fold_min_le: "fold min xs (x::real) \<le> x"
proof (induction xs arbitrary: x)
  case Nil
  show ?case by simp
next
  case (Cons a xs)
  have "fold min xs (min a x) \<le> min a x" by (rule Cons.IH)
  then show ?case by simp
qed

lemma fold_max_ge: "(x::real) \<le> fold max xs x"
proof (induction xs arbitrary: x)
  case Nil
  show ?case by simp
next
  case (Cons a xs)
  have "max a x \<le> fold max xs (max a x)" by (rule Cons.IH)
  then show ?case by simp
qed

lemma fold_min_le_fold_max: "fold min xs (x::real) \<le> fold max xs x"
  using fold_min_le [of xs x] fold_max_ge [of x xs] by linarith

lemma bounds_ordered:
  "get_bbox_bounds bbox = Inr (l, t, r, b) \<Longrightarrow> l \<le> r \<and> t \<le> b"
  by (cases bbox) (auto simp: get_bbox_bounds_Nil get_bbox_bounds_Cons fold_min_le_fold_max)

subsection \<open>The clustering scan\<close>

lemma parse_step_Inr:
  "get_bbox_bounds (fst u) = Inr (l, t, r, b) \<Longrightarrow>
   parse_step st u =
     Inr ((if same_para st l r (t - para_bottom st)
           then st\<lparr>para_l := (para_l st + l) / 2,
                   para_r := (para_r st + r) / 2,
                   para_line_h := (para_line_h st + (b - t)) / 2,
                   para_line_s :=
                     (case para_line_s st of
                        None \<Rightarrow> Some (t - para_bottom st)
                      | Some s \<Rightarrow> Some ((s + (t - para_bottom st)) / 2)),
                   paras := butlast (paras st) @ [last (paras st) @ [u]]\<rparr>
           else st\<lparr>paras := paras st @ [[u]],
                   paras_line_space := paras_line_space st @ [para_line_s st],
                   para_l := l, para_r := r, para_line_h := b - t,
                   para_line_s := None\<rparr>)\<lparr>para_bottom := b\<rparr>)"
  by (simp add: parse_step_def Let_def)

lemma parse_step_Inl_iff: "parse_step st u = Inl e \<longleftrightarrow> e = ValueError \<and> fst u = []"
  using get_bbox_bounds_Inl_iff [of "fst u" e]
  by (auto simp: parse_step_def Let_def split: sum.splits prod.splits)

lemma parse_step_total: "fst u \<noteq> [] \<Longrightarrow> \<exists>st'. parse_step st u = Inr st'"
  using parse_step_Inl_iff [of st u] by (cases "parse_step st u") auto

lemma same_para_iff:
  "same_para st l r ls \<longleftrightarrow>
     \<bar>para_l st - l\<bar> \<le> 1.2 * para_line_h st \<and>
     \<bar>para_r st - r\<bar> \<le> 1.2 * para_line_h st \<and>
     (para_line_s st = None \<or> ls < the (para_line_s st) + 0.5 * para_line_h st)"
  by (auto simp: same_para_def split: option.splits)

lemma parse_step_paras:
  assumes "parse_step st u = Inr st'" and "paras st \<noteq> []"
  shows "paras st' \<noteq> []" and "concat (paras st') = concat (paras st) @ [u]"
    and "[] \<notin> set (paras st) \<Longrightarrow> [] \<notin> set (paras st')"
proof -
  from assms(1) obtain l t r b where bb: "get_bbox_bounds (fst u) = Inr (l, t, r, b)"
    by (auto simp: parse_step_def split: sum.splits)
  have split: "paras st = butlast (paras st) @ [last (paras st)]"
    using assms(2) by simp
  have c: "concat (paras st) = concat (butlast (paras st)) @ last (paras st)"
    by (subst split) simp
  from assms(1) show "paras st' \<noteq> []"
    unfolding parse_step_Inr [OF bb] by (auto split: if_splits)
  from assms(1) show "concat (paras st') = concat (paras st) @ [u]"
    unfolding parse_step_Inr [OF bb] by (auto simp: c split: if_splits)
  assume "[] \<notin> set (paras st)"
  moreover have "set (butlast (paras st)) \<subseteq> set (paras st)"
    by (auto dest: in_set_butlastD)
  ultimately show "[] \<notin> set (paras st')"
    using assms(1) unfolding parse_step_Inr [OF bb] by (auto split: if_splits)
qed

lemma parse_scan_paras:
  "parse_scan st us = Inr st' \<Longrightarrow> paras st \<noteq> [] \<Longrightarrow> [] \<notin> set (paras st) \<Longrightarrow>
   paras st' \<noteq> [] \<and> concat (paras st') = concat (paras st) @ us \<and> [] \<notin> set (paras st')"
proof (induction us arbitrary: st)
  case Nil
  then show ?case by simp
next
  case (Cons u us)
  from Cons.prems(1) obtain st1 where s1: "parse_step st u = Inr st1"
    and s2: "parse_scan st1 us = Inr st'"
    by (auto split: sum.splits)
  from parse_step_paras [OF s1 Cons.prems(2)] Cons.prems(3)
  have "paras st1 \<noteq> []" "concat (paras st1) = concat (paras st) @ [u]" "[] \<notin> set (paras st1)"
    by auto
  with Cons.IH [OF s2] show ?case by simp
qed

lemma parse_scan_total:
  "\<forall>u \<in> set us. fst u \<noteq> [] \<Longrightarrow> \<exists>st'. parse_scan st us = Inr st'"
proof (induction us arbitrary: st)
  case Nil
  then show ?case by simp
next
  case (Cons u us)
  then obtain st1 where "parse_step st u = Inr st1"
    using parse_step_total [of u st] by auto
  with Cons show ?case by simp
qed

lemma parse_scan_Inl:
  "parse_scan st us = Inl e \<Longrightarrow> e = ValueError \<and> (\<exists>u \<in> set us. fst u = [])"
proof (induction us arbitrary: st)
  case Nil
  then show ?case by simp
next
  case (Cons u us)
  then show ?case using parse_step_Inl_iff [of st u] by (auto split: sum.splits)
qed

lemma init_state_Inr:
  "get_bbox_bounds (fst u) = Inr (l, t, r, b) \<Longrightarrow>
   init_state u = Inr \<lparr>para_l = l, para_top = t, para_r = r, para_bottom = b,
                       para_line_h = b - t, para_line_s = None,
                       paras = [[u]], paras_line_space = [None]\<rparr>"
  by (simp add: init_state_def)

lemma init_state_Inl_iff: "init_state u = Inl e \<longleftrightarrow> e = ValueError \<and> fst u = []"
  using get_bbox_bounds_Inl_iff [of "fst u" e]
  by (auto simp: init_state_def split: sum.splits prod.splits)

lemma init_state_paras: "init_state u = Inr st \<Longrightarrow> paras st = [[u]]"
  by (auto simp: init_state_def split: sum.splits prod.splits)

lemma sort_units_Inr_iff:
  "sort_units units = Inr s \<longleftrightarrow> (\<forall>u \<in> set units. fst u \<noteq> []) \<and> s = sort_key unit_top units"
  by (auto simp: sort_units_def list_ex_iff)

lemma sort_units_Inl_iff:
  "sort_units units = Inl e \<longleftrightarrow> e = ValueError \<and> (\<exists>u \<in> set units. fst u = [])"
  by (auto simp: sort_units_def list_ex_iff)

lemma parse_paras_Inl_iff:
  "parse_paras units = Inl e \<longleftrightarrow> e = ValueError \<and> (\<exists>u \<in> set units. fst u = [])"
proof (cases units)
  case Nil
  then show ?thesis by (simp add: parse_paras_def)
next
  case (Cons a as)
  show ?thesis
  proof (cases "\<exists>u \<in> set units. fst u = []")
    case True
    then have "sort_units units = Inl ValueError" by (simp add: sort_units_Inl_iff)
    with Cons True show ?thesis by (auto simp: parse_paras_def)
  next
    case False
    let ?s = "sort_key unit_top units"
    from False have su: "sort_units units = Inr ?s" by (simp add: sort_units_Inr_iff)
    have ne: "?s \<noteq> []" using Cons by (metis length_sort list.size(3) length_0_conv list.distinct(1))
    have allne: "\<forall>u \<in> set ?s. fst u \<noteq> []" using False by simp
    from ne allne have "fst (hd ?s) \<noteq> []" by (cases ?s) auto
    then obtain st0 where i: "init_state (hd ?s) = Inr st0"
      using init_state_Inl_iff [of "hd ?s"] by (cases "init_state (hd ?s)") auto
    from ne allne have "\<forall>u \<in> set (tl ?s). fst u \<noteq> []" by (cases ?s) auto
    from parse_scan_total [OF this] obtain st where "parse_scan st0 (tl ?s) = Inr st" by blast
    with Cons su i False show ?thesis by (auto simp: parse_paras_def)
  qed
qed

lemma parse_paras_total:
  "\<forall>u \<in> set units. fst u \<noteq> [] \<Longrightarrow> \<exists>ps. parse_paras units = Inr ps"
  using parse_paras_Inl_iff [of units] by (cases "parse_paras units") auto

lemma parse_paras_Inr:
  assumes "parse_paras units = Inr ps"
  shows "concat ps = sort_key unit_top units \<and> [] \<notin> set ps"
proof (cases units)
  case Nil
  with assms show ?thesis by (auto simp: parse_paras_def)
next
  case (Cons a as)
  let ?s = "sort_key unit_top units"
  from assms Cons obtain st0 st where su: "sort_units units = Inr ?s"
    and i: "init_state (hd ?s) = Inr st0"
    and sc: "parse_scan st0 (tl ?s) = Inr st" and ps: "ps = paras st"
    by (auto simp: parse_paras_def sort_units_Inr_iff split: sum.splits)
  have ne: "?s \<noteq> []" using Cons by (metis length_sort list.size(3) length_0_conv list.distinct(1))
  from init_state_paras [OF i] have p0: "paras st0 = [[hd ?s]]" .
  from parse_scan_paras [OF sc] p0
  have "concat (paras st) = hd ?s # tl ?s" and "[] \<notin> set (paras st)" by auto
  with ne ps show ?thesis by auto
qed

lemma parse_paras_unfold:
  assumes "units \<noteq> []" and "\<forall>u \<in> set units. fst u \<noteq> []"
  shows "\<exists>st0 stn. init_state (hd (sort_key unit_top units)) = Inr st0 \<and>
           parse_scan st0 (tl (sort_key unit_top units)) = Inr stn \<and>
           parse_paras units = Inr (paras stn)"
proof -
  let ?s = "sort_key unit_top units"
  from assms(2) have su: "sort_units units = Inr ?s" by (simp add: sort_units_Inr_iff)
  from parse_paras_total [OF assms(2)] obtain ps where ps: "parse_paras units = Inr ps" by blast
  from assms(1) obtain a as where "units = a # as" by (cases units) auto
  with ps su show ?thesis by (auto simp: parse_paras_def split: sum.splits)
qed

text \<open>
  Claim C1. On a non-empty sequence of units (each box with a point) the paragraphs are
  those of the scan that starts from the first unit of the sequence sorted by top and
  runs over the rest. In the scan, a unit with extent \<open>(l, t, r, b)\<close> is merged into
  the running paragraph exactly when
  \<open>|para_l - l| \<le> 1.2 * para_line_h\<close>, \<open>|para_r - r| \<le> 1.2 * para_line_h\<close> and
  (\<open>para_line_s\<close> is undefined or \<open>ls < para_line_s + 0.5 * para_line_h\<close>) hold for the
  values before the step, with \<open>ls = t - para_bottom\<close>. A merge averages \<open>para_l\<close>,
  \<open>para_r\<close>, \<open>para_line_h\<close> with \<open>l\<close>, \<open>r\<close>, \<open>b - t\<close> and sets the spacing to
  \<open>ls\<close> if it was undefined and to the average with \<open>ls\<close> otherwise; a failed test
  opens a paragraph seeded from the unit, with undefined spacing. In both cases
  \<open>para_bottom\<close> becomes \<open>b\<close>.
\<close>

theorem same_paragraph_step:
  "(units \<noteq> [] \<and> (\<forall>u \<in> set units. fst u \<noteq> []) \<longrightarrow>
      (\<exists>st0 stn. init_state (hd (sort_key unit_top units)) = Inr st0 \<and>
         parse_scan st0 (tl (sort_key unit_top units)) = Inr stn \<and>
         parse_paras units = Inr (paras stn))) \<and>
   (get_bbox_bounds (fst u) = Inr (l, t, r, b) \<longrightarrow>
      (\<exists>st'. parse_step st u = Inr st' \<and>
         parse_scan st (u # us) = parse_scan st' us \<and>
         para_bottom st' = b \<and>
         (let ls = t - para_bottom st;
              h_i = b - t;
              test = (\<bar>para_l st - l\<bar> \<le> 1.2 * para_line_h st \<and>
                      \<bar>para_r st - r\<bar> \<le> 1.2 * para_line_h st \<and>
                      (para_line_s st = None \<or>
                       ls < the (para_line_s st) + 0.5 * para_line_h st))
          in (test \<longrightarrow>
                paras st' = butlast (paras st) @ [last (paras st) @ [u]] \<and>
                para_l st' = (para_l st + l) / 2 \<and>
                para_r st' = (para_r st + r) / 2 \<and>
                para_line_h st' = (para_line_h st + h_i) / 2 \<and>
                para_line_s st' =
                  Some (if para_line_s st = None then ls
                        else (the (para_line_s st) + ls) / 2)) \<and>
             (\<not> test \<longrightarrow>
                paras st' = paras st @ [[u]] \<and>
                para_l st' = l \<and> para_r st' = r \<and> para_line_h st' = h_i \<and>
                para_line_s st' = None) \<and>
             (paras st \<noteq> [] \<longrightarrow>
                (length (paras st') = length (paras st) \<longleftrightarrow> test)))))"
proof (intro conjI impI)
  assume "units \<noteq> [] \<and> (\<forall>u \<in> set units. fst u \<noteq> [])"
  then show "\<exists>st0 stn. init_state (hd (sort_key unit_top units)) = Inr st0 \<and>
         parse_scan st0 (tl (sort_key unit_top units)) = Inr stn \<and>
         parse_paras units = Inr (paras stn)"
    using parse_paras_unfold [of units] by blast
next
  assume bb: "get_bbox_bounds (fst u) = Inr (l, t, r, b)"
  show "\<exists>st'. parse_step st u = Inr st' \<and>
         parse_scan st (u # us) = parse_scan st' us \<and>
         para_bottom st' = b \<and>
         (let ls = t - para_bottom st;
              h_i = b - t;
              test = (\<bar>para_l st - l\<bar> \<le> 1.2 * para_line_h st \<and>
                      \<bar>para_r st - r\<bar> \<le> 1.2 * para_line_h st \<and>
                      (para_line_s st = None \<or>
                       ls < the (para_line_s st) + 0.5 * para_line_h st))
          in (test \<longrightarrow>
                paras st' = butlast (paras st) @ [last (paras st) @ [u]] \<and>
                para_l st' = (para_l st + l) / 2 \<and>
                para_r st' = (para_r st + r) / 2 \<and>
                para_line_h st' = (para_line_h st + h_i) / 2 \<and>
                para_line_s st' =
                  Some (if para_line_s st = None then ls
                        else (the (para_line_s st) + ls) / 2)) \<and>
             (\<not> test \<longrightarrow>
                paras st' = paras st @ [[u]] \<and>
                para_l st' = l \<and> para_r st' = r \<and> para_line_h st' = h_i \<and>
                para_line_s st' = None) \<and>
             (paras st \<noteq> [] \<longrightarrow>
                (length (paras st') = length (paras st) \<longleftrightarrow> test)))"
  proof (cases "same_para st l r (t - para_bottom st)")
    case True
    with parse_step_Inr [OF bb, of st] True same_para_iff [of st l r "t - para_bottom st"]
    show ?thesis by (auto simp: Let_def split: option.splits)
  next
    case False
    with parse_step_Inr [OF bb, of st] same_para_iff [of st l r "t - para_bottom st"]
    show ?thesis by (auto simp: Let_def)
  qed
qed

theorem same_paragraph_step_witness:
  "parse_paras [world_unit, hello_unit] = Inr [[hello_unit, world_unit]] \<and>
   init_state hello_unit = Inr one_line_state \<and>
   get_bbox_bounds (fst world_unit) = Inr (0, 22, 100, 42) \<and>
   parse_step one_line_state world_unit = Inr two_line_state \<and>
   parse_scan one_line_state [world_unit, far_unit] = parse_scan two_line_state [far_unit] \<and>
   paras two_line_state = butlast (paras one_line_state) @ [last (paras one_line_state) @ [world_unit]] \<and>
   para_line_s two_line_state = Some (22 - para_bottom one_line_state) \<and>
   para_bottom two_line_state = 42"
proof -
  have b: "get_bbox_bounds (fst world_unit) = Inr (0, 22, 100, 42)"
    by (simp add: hello_unit_def world_unit_def far_unit_def one_line_state_def two_line_state_def rect_box_def eval_defs)
  have s: "parse_step one_line_state world_unit = Inr two_line_state"
    by (simp add: hello_unit_def world_unit_def far_unit_def one_line_state_def two_line_state_def rect_box_def eval_defs)
  have i: "init_state hello_unit = Inr one_line_state"
    by (simp add: hello_unit_def world_unit_def far_unit_def one_line_state_def two_line_state_def rect_box_def eval_defs)
  have p: "parse_paras [world_unit, hello_unit] = Inr [[hello_unit, world_unit]]"
    by (simp add: hello_unit_def world_unit_def far_unit_def one_line_state_def two_line_state_def rect_box_def eval_defs)
  from same_paragraph_step [of "[world_unit, hello_unit]" world_unit 0 22 100 42 one_line_state "[far_unit]"] b s
  have "parse_scan one_line_state [world_unit, far_unit] = parse_scan two_line_state [far_unit]"
    by auto
  with b s i p show ?thesis by (simp add: one_line_state_def two_line_state_def)
qed

lemma parse_scan_append:
  "parse_scan st (xs @ ys) =
     (case parse_scan st xs of Inl e \<Rightarrow> Inl e | Inr st' \<Rightarrow> parse_scan st' ys)"
  by (induction xs arbitrary: st) (auto split: sum.splits)

lemma parse_step_shape:
  "parse_step st u = Inr st' \<Longrightarrow>
   paras st' = butlast (paras st) @ [last (paras st) @ [u]] \<or> paras st' = paras st @ [[u]]"
proof -
  assume a: "parse_step st u = Inr st'"
  then obtain l t r b where bb: "get_bbox_bounds (fst u) = Inr (l, t, r, b)"
    by (auto simp: parse_step_def split: sum.splits)
  from a show ?thesis unfolding parse_step_Inr [OF bb] by (auto split: if_splits)
qed

lemma parse_scan_extends:
  "parse_scan st us = Inr st' \<Longrightarrow> paras st \<noteq> [] \<Longrightarrow>
   \<exists>ext qs. paras st' = butlast (paras st) @ [last (paras st) @ ext] @ qs"
proof (induction us arbitrary: st)
  case Nil
  then have "paras st' = butlast (paras st) @ [last (paras st) @ []] @ []" by simp
  then show ?case by blast
next
  case (Cons u us)
  from Cons.prems(1) obtain st1 where s1: "parse_step st u = Inr st1"
    and s2: "parse_scan st1 us = Inr st'"
    by (auto split: sum.splits)
  from parse_step_paras(1) [OF s1 Cons.prems(2)] have ne1: "paras st1 \<noteq> []" .
  from Cons.IH [OF s2 ne1] obtain ext qs where
    e: "paras st' = butlast (paras st1) @ [last (paras st1) @ ext] @ qs" by blast
  from parse_step_shape [OF s1] show ?case
  proof
    assume m: "paras st1 = butlast (paras st) @ [last (paras st) @ [u]]"
    then have "butlast (paras st1) = butlast (paras st)" "last (paras st1) = last (paras st) @ [u]"
      by simp_all
    with e have "paras st' = butlast (paras st) @ [last (paras st) @ (u # ext)] @ qs" by simp
    then show ?thesis by blast
  next
    assume n: "paras st1 = paras st @ [[u]]"
    then have "butlast (paras st1) = butlast (paras st) @ [last (paras st)]" "last (paras st1) = [u]"
      using Cons.prems(2) by simp_all
    with e have "paras st' = butlast (paras st) @ [last (paras st) @ []] @ ((u # ext) # qs)"
      by simp
    then show ?thesis by blast
  qed
qed

lemma unit_top_bounds: "get_bbox_bounds (fst u) = Inr (l, t, r, b) \<Longrightarrow> unit_top u = t"
  by (simp add: unit_top_def)

lemma two_lines_same_margins_merge:
  assumes b0: "get_bbox_bounds (fst u0) = Inr (l, t0, r, b0)"
    and b1: "get_bbox_bounds (fst u) = Inr (l, t, r, b)"
    and le: "t0 \<le> t"
  shows "parse_paras [u0, u] = Inr [[u0, u]]"
proof -
  from b0 b1 have ne: "fst u0 \<noteq> []" "fst u \<noteq> []"
    by (auto simp: get_bbox_bounds_Nil)
  from le have srt: "sort_key unit_top [u0, u] = [u0, u]"
    by (simp add: unit_top_bounds [OF b0] unit_top_bounds [OF b1])
  from ne have su: "sort_units [u0, u] = Inr [u0, u]"
    using srt by (simp add: sort_units_def)
  from bounds_ordered [OF b0] have h: "0 \<le> b0 - t0" by simp
  let ?st0 = "\<lparr>para_l = l, para_top = t0, para_r = r, para_bottom = b0,
               para_line_h = b0 - t0, para_line_s = None,
               paras = [[u0]], paras_line_space = [None]\<rparr>"
  have i: "init_state u0 = Inr ?st0" by (rule init_state_Inr [OF b0])
  from h have sp: "same_para ?st0 l r (t - para_bottom ?st0)"
    by (simp add: same_para_def)
  have "\<exists>st1. parse_step ?st0 u = Inr st1 \<and> paras st1 = [[u0, u]]"
    unfolding parse_step_Inr [OF b1] using sp by simp
  then obtain st1 where "parse_step ?st0 u = Inr st1" "paras st1 = [[u0, u]]" by blast
  with su i show ?thesis by (simp add: parse_paras_def)
qed

lemma established_gap_splits:
  assumes srt: "sort_key unit_top units = u0 # pre @ u # rest"
    and ne: "\<forall>v \<in> set units. fst v \<noteq> []"
    and i: "init_state u0 = Inr st0"
    and sc: "parse_scan st0 pre = Inr st"
    and bb: "get_bbox_bounds (fst u) = Inr (l, t, r, b)"
    and s: "para_line_s st = Some s"
    and gap: "t - para_bottom st \<ge> s + 0.5 * para_line_h st"
  shows "\<exists>ext qs. parse_paras units = Inr (paras st @ [u # ext] @ qs)"
proof -
  from srt have une: "units \<noteq> []" by auto
  then obtain a as where ua: "units = a # as" by (cases units) auto
  from ne have su: "sort_units units = Inr (u0 # pre @ u # rest)"
    using srt by (simp add: sort_units_Inr_iff)
  have "set (sort_key unit_top units) = set units" by simp
  with srt ne have rne: "\<forall>v \<in> set rest. fst v \<noteq> []" by auto
  from s gap have nt: "\<not> same_para st l r (t - para_bottom st)"
    by (simp add: same_para_def)
  have "\<exists>st1. parse_step st u = Inr st1 \<and> paras st1 = paras st @ [[u]]"
    unfolding parse_step_Inr [OF bb] using nt by simp
  then obtain st1 where s1: "parse_step st u = Inr st1" and p1: "paras st1 = paras st @ [[u]]"
    by blast
  from parse_scan_total [OF rne] obtain stn where sn: "parse_scan st1 rest = Inr stn" by blast
  from p1 have ne1: "paras st1 \<noteq> []" by simp
  from parse_scan_extends [OF sn ne1] p1 obtain ext qs where
    fin: "paras stn = paras st @ [u # ext] @ qs" by auto
  from sc s1 sn have "parse_scan st0 (pre @ u # rest) = Inr stn"
    by (simp add: parse_scan_append)
  with ua su i have "parse_paras units = Inr (paras stn)"
    by (simp add: parse_paras_def)
  with fin show ?thesis by auto
qed

text \<open>
  The claim C8 as stated fails: a two-line input with identical margins and a gap of 980
  between the lines (line height 20) is one paragraph, the first block gets a space.
  The scan tests the gap only against an established spacing, and the second line of a
  paragraph has none.
\<close>

theorem two_lines_merge_whatever_gap:
  "get_bbox_bounds (tb_box hello_block) = Inr (0, 0, 100, 20) \<and>
   get_bbox_bounds (tb_box distant_block) = Inr (0, 1000, 100, 1020) \<and>
   get_units [hello_block, distant_block] = Inr [hello_unit, distant_unit] \<and>
   parse_paras [hello_unit, distant_unit] = Inr [[hello_unit, distant_unit]] \<and>
   run category_ascii [hello_block, distant_block] =
     Inr [hello_block\<lparr>tb_end := [32]\<rparr>, distant_block\<lparr>tb_end := [10]\<rparr>]"
  by (simp add: hello_block_def distant_block_def hello_unit_def distant_unit_def rect_box_def
        eval_defs category_ascii_def)

text \<open>
  Claim C8, as the code has it. A vertical gap splits two lines only against an
  established spacing. When the units sorted by top are \<open>u0, pre, u, rest\<close>, the scan
  of \<open>u0, pre\<close> has established a spacing \<open>s\<close>, and the gap \<open>t - para_bottom\<close> of
  \<open>u\<close> is at least \<open>s + 0.5 * para_line_h\<close>, then in the paragraphs returned \<open>u\<close> is
  the first line of a paragraph that follows the paragraphs of \<open>u0, pre\<close>, whatever
  the margins of \<open>u\<close>. When no spacing is established the gap is not tested: two lines
  with identical left and right margins are returned as one paragraph, whatever the
  gap between them.
\<close>

theorem vertical_gap_splits:
  "(sort_key unit_top units = u0 # pre @ u # rest \<and>
    (\<forall>v \<in> set units. fst v \<noteq> []) \<and>
    init_state u0 = Inr st0 \<and> parse_scan st0 pre = Inr st \<and>
    get_bbox_bounds (fst u) = Inr (l, t, r, b) \<and>
    para_line_s st = Some s \<and>
    t - para_bottom st \<ge> s + 0.5 * para_line_h st \<longrightarrow>
      (\<exists>ext qs. parse_paras units = Inr (paras st @ [u # ext] @ qs))) \<and>
   (get_bbox_bounds (fst v0) = Inr (l', t0, r', b0) \<and>
    get_bbox_bounds (fst v1) = Inr (l', t1, r', b1) \<and> t0 \<le> t1 \<longrightarrow>
      parse_paras [v0, v1] = Inr [[v0, v1]])"
  using established_gap_splits [of units u0 pre u rest st0 st l t r b s]
        two_lines_same_margins_merge [of v0 l' t0 r' b0 v1 t1 b1]
  by blast

theorem vertical_gap_splits_witness:
  "sort_key unit_top [far_unit, hello_unit, world_unit] = hello_unit # [world_unit] @ far_unit # [] \<and>
   fst far_unit \<noteq> [] \<and> fst hello_unit \<noteq> [] \<and> fst world_unit \<noteq> [] \<and>
   init_state hello_unit = Inr one_line_state \<and>
   parse_scan one_line_state [world_unit] = Inr two_line_state \<and>
   get_bbox_bounds (fst far_unit) = Inr (0, 60, 100, 80) \<and>
   para_line_s two_line_state = Some 2 \<and>
   60 - para_bottom two_line_state \<ge> 2 + 0.5 * para_line_h two_line_state \<and>
   (\<exists>ext qs. parse_paras [far_unit, hello_unit, world_unit] =
               Inr (paras two_line_state @ [far_unit # ext] @ qs)) \<and>
   parse_paras [far_unit, hello_unit, world_unit] = Inr [[hello_unit, world_unit], [far_unit]] \<and>
   get_bbox_bounds (fst hello_unit) = Inr (0, 0, 100, 20) \<and>
   get_bbox_bounds (fst distant_unit) = Inr (0, 1000, 100, 1020) \<and>
   parse_paras [hello_unit, distant_unit] = Inr [[hello_unit, distant_unit]]"
proof -
  have srt: "sort_key unit_top [far_unit, hello_unit, world_unit] =
               hello_unit # [world_unit] @ far_unit # []"
    by (simp add: hello_unit_def world_unit_def far_unit_def rect_box_def eval_defs)
  have ne: "fst far_unit \<noteq> []" "fst hello_unit \<noteq> []" "fst world_unit \<noteq> []"
    by (simp_all add: hello_unit_def world_unit_def far_unit_def rect_box_def)
  have i: "init_state hello_unit = Inr one_line_state"
    by (simp add: hello_unit_def one_line_state_def rect_box_def eval_defs)
  have sc: "parse_scan one_line_state [world_unit] = Inr two_line_state"
    by (simp add: hello_unit_def world_unit_def one_line_state_def two_line_state_def
          rect_box_def eval_defs)
  have b: "get_bbox_bounds (fst far_unit) = Inr (0, 60, 100, 80)"
    "get_bbox_bounds (fst hello_unit) = Inr (0, 0, 100, 20)"
    "get_bbox_bounds (fst distant_unit) = Inr (0, 1000, 100, 1020)"
    by (simp_all add: far_unit_def hello_unit_def distant_unit_def rect_box_def eval_defs)
  have h: "para_line_s two_line_state = Some 2"
    "60 - para_bottom two_line_state \<ge> 2 + 0.5 * para_line_h two_line_state"
    by (simp_all add: two_line_state_def)
  have p3: "parse_paras [far_unit, hello_unit, world_unit] =
              Inr [[hello_unit, world_unit], [far_unit]]"
    by (simp add: hello_unit_def world_unit_def far_unit_def rect_box_def eval_defs)
  from vertical_gap_splits
         [of "[far_unit, hello_unit, world_unit]" hello_unit "[world_unit]" far_unit "[]"
             one_line_state two_line_state 0 60 100 80 2
             hello_unit 0 0 100 20 distant_unit 1000 1020]
       srt ne i sc b h
  have "(\<exists>ext qs. parse_paras [far_unit, hello_unit, world_unit] =
               Inr (paras two_line_state @ [far_unit # ext] @ qs)) \<and>
        parse_paras [hello_unit, distant_unit] = Inr [[hello_unit, distant_unit]]"
    by simp
  with srt ne i sc b h p3 show ?thesis by simp
qed

text \<open>
  The claim C7 as stated fails: a first box with top = bottom gives \<open>para_line_h = 0\<close>,
  and the next line, whose left and right margins equal the paragraph's, is merged
  into the same paragraph (the first block gets a space, not a line break).
\<close>

theorem zero_height_merges_equal_margins:
  "get_bbox_bounds (tb_box flat_block) = Inr (0, 0, 100, 0) \<and>
   get_units [flat_block, next_block] = Inr [flat_unit, next_unit] \<and>
   init_state flat_unit = Inr flat_state \<and>
   para_line_h flat_state = 0 \<and>
   parse_paras [flat_unit, next_unit] = Inr [[flat_unit, next_unit]] \<and>
   run category_ascii [flat_block, next_block] =
     Inr [flat_block\<lparr>tb_end := [32]\<rparr>, next_block\<lparr>tb_end := [10]\<rparr>]"
  by (simp add: flat_block_def next_block_def flat_unit_def next_unit_def flat_state_def rect_box_def eval_defs category_ascii_def)

text \<open>
  Claim C7, as the code has it. The scan returns paragraphs whenever every box has a
  point, boxes of zero width or height included. A first box with top = bottom seeds
  \<open>para_line_h = 0\<close>. With \<open>para_line_h = 0\<close> both tolerances are 0: the next unit
  opens a new paragraph unless its left and right are equal to \<open>para_l\<close> and
  \<open>para_r\<close> and the spacing is undefined or its gap is below the spacing; in that
  case it is merged.
\<close>

theorem zero_height_step:
  "((\<forall>u \<in> set units. fst u \<noteq> []) \<longrightarrow> (\<exists>ps. parse_paras units = Inr ps)) \<and>
   (get_bbox_bounds (fst u) = Inr (l, t, r, t) \<longrightarrow>
      (\<exists>st0. init_state u = Inr st0 \<and> para_line_h st0 = 0)) \<and>
   (para_line_h st = 0 \<and> paras st \<noteq> [] \<and> get_bbox_bounds (fst v) = Inr (l', t', r', b') \<longrightarrow>
      (\<exists>st'. parse_step st v = Inr st' \<and>
         (paras st' = paras st @ [[v]] \<longleftrightarrow>
            \<not> (l' = para_l st \<and> r' = para_r st \<and>
               (para_line_s st = None \<or> t' - para_bottom st < the (para_line_s st))))))"
proof (intro conjI impI)
  assume "\<forall>u \<in> set units. fst u \<noteq> []"
  then show "\<exists>ps. parse_paras units = Inr ps" by (rule parse_paras_total)
next
  assume "get_bbox_bounds (fst u) = Inr (l, t, r, t)"
  from init_state_Inr [OF this] show "\<exists>st0. init_state u = Inr st0 \<and> para_line_h st0 = 0"
    by simp
next
  assume a: "para_line_h st = 0 \<and> paras st \<noteq> [] \<and> get_bbox_bounds (fst v) = Inr (l', t', r', b')"
  then have bb: "get_bbox_bounds (fst v) = Inr (l', t', r', b')" and h: "para_line_h st = 0"
    and ne: "paras st \<noteq> []" by auto
  have test: "same_para st l' r' (t' - para_bottom st) \<longleftrightarrow>
                (l' = para_l st \<and> r' = para_r st \<and>
                 (para_line_s st = None \<or> t' - para_bottom st < the (para_line_s st)))"
    using h by (auto simp: same_para_iff)
  have neq: "butlast (paras st) @ [last (paras st) @ [v]] \<noteq> paras st @ [[v]]"
  proof
    assume "butlast (paras st) @ [last (paras st) @ [v]] = paras st @ [[v]]"
    then have "length (butlast (paras st) @ [last (paras st) @ [v]]) = length (paras st @ [[v]])"
      by simp
    with ne show False by simp
  qed
  show "\<exists>st'. parse_step st v = Inr st' \<and>
         (paras st' = paras st @ [[v]] \<longleftrightarrow>
            \<not> (l' = para_l st \<and> r' = para_r st \<and>
               (para_line_s st = None \<or> t' - para_bottom st < the (para_line_s st))))"
    unfolding parse_step_Inr [OF bb] test [symmetric] using neq by simp
qed

theorem zero_height_step_witness:
  "fst flat_unit \<noteq> [] \<and> fst next_unit \<noteq> [] \<and>
   (\<exists>ps. parse_paras [flat_unit, next_unit] = Inr ps) \<and>
   get_bbox_bounds (fst flat_unit) = Inr (0, 0, 100, 0) \<and>
   (\<exists>st0. init_state flat_unit = Inr st0 \<and> para_line_h st0 = 0) \<and>
   para_line_h flat_state = 0 \<and> paras flat_state \<noteq> [] \<and>
   get_bbox_bounds (fst world_unit) = Inr (0, 22, 100, 42) \<and>
   (\<exists>st'. parse_step flat_state world_unit = Inr st' \<and> paras st' \<noteq> paras flat_state @ [[world_unit]])"
proof -
  have b: "get_bbox_bounds (fst flat_unit) = Inr (0, 0, 100, 0)"
    "get_bbox_bounds (fst world_unit) = Inr (0, 22, 100, 42)"
    by (simp_all add: flat_unit_def next_unit_def world_unit_def flat_state_def rect_box_def eval_defs)
  have n: "\<forall>u \<in> set [flat_unit, next_unit]. fst u \<noteq> []"
    by (simp add: flat_unit_def next_unit_def world_unit_def flat_state_def rect_box_def)
  have f: "para_line_h flat_state = 0" "paras flat_state \<noteq> []"
    "para_l flat_state = 0" "para_r flat_state = 100" "para_line_s flat_state = None"
    by (simp_all add: flat_state_def)
  from zero_height_step [of "[flat_unit, next_unit]" flat_unit 0 0 100 flat_state world_unit 0 22 100 42]
    b n f
  show ?thesis by simp
qed

subsection \<open>The end-to-end example\<close>

lemma startswith_P_ascii_W: "\<not> startswith_P (category_ascii 87)"
  by (simp add: category_ascii_def)

text \<open>
  Claim C3. With the ignore rectangle \<open>(0, 190, 200, 230)\<close> the filter drops
  \<open>Footer\<close> and keeps \<open>Hello\<close> and \<open>World\<close>; the reconstruction puts both in one
  paragraph, \<open>Hello\<close> with a space and \<open>World\<close> with a line break, and
  \<open>extract_text\<close> on the three lines of a text layer returns the same two blocks. The
  category of \<open>W\<close> (code point 87) is taken from the table: it does not start with
  \<open>P\<close>.
\<close>

theorem end_to_end_example:
  assumes "\<not> startswith_P (category 87)"
  shows "filter_ignore_areas [hello_block, world_block, footer_block] [(0, 190, 200, 230)] =
           Inr [hello_block, world_block] \<and>
         get_units [hello_block, world_block] = Inr [hello_unit, world_unit] \<and>
         parse_paras [hello_unit, world_unit] = Inr [[hello_unit, world_unit]] \<and>
         run category [hello_block, world_block] =
           Inr [hello_block\<lparr>tb_end := [32]\<rparr>, world_block\<lparr>tb_end := [10]\<rparr>] \<and>
         extract_text category ''textOnly'' [hello_line, world_line, footer_line] []
             [(0, 190, 200, 230)] =
           Inr [hello_block\<lparr>tb_end := [32]\<rparr>, world_block\<lparr>tb_end := [10]\<rparr>]"
  using assms by (simp add: hello_block_def world_block_def footer_block_def hello_unit_def world_unit_def
      hello_line_def world_line_def footer_line_def rect_box_def eval_defs)

theorem end_to_end_example_witness:
  "\<not> startswith_P (category_ascii 87) \<and>
   run category_ascii [hello_block, world_block] =
     Inr [hello_block\<lparr>tb_end := [32]\<rparr>, world_block\<lparr>tb_end := [10]\<rparr>]"
  using end_to_end_example [of category_ascii, OF startswith_P_ascii_W] startswith_P_ascii_W by blast

subsection \<open>Writing the separators\<close>

lemma length_set_end: "length (set_end store i sep) = length store"
  by (simp add: set_end_def)

lemma nth_set_end_other: "j \<noteq> i \<Longrightarrow> set_end store i sep ! j = store ! j"
  by (simp add: set_end_def)

lemma nth_set_end_same:
  "i < length store \<Longrightarrow> set_end store i sep ! i = (store ! i)\<lparr>tb_end := sep\<rparr>"
  by (simp add: set_end_def)

lemma set_end_frame:
  "map (\<lambda>b. b\<lparr>tb_end := []\<rparr>) (set_end store i sep) = map (\<lambda>b. b\<lparr>tb_end := []\<rparr>) store"
proof (rule nth_equalityI)
  show "length (map (\<lambda>b. b\<lparr>tb_end := []\<rparr>) (set_end store i sep)) =
        length (map (\<lambda>b. b\<lparr>tb_end := []\<rparr>) store)"
    by (simp add: set_end_def)
next
  fix j assume "j < length (map (\<lambda>b. b\<lparr>tb_end := []\<rparr>) (set_end store i sep))"
  then have j: "j < length store" by (simp add: set_end_def)
  then show "map (\<lambda>b. b\<lparr>tb_end := []\<rparr>) (set_end store i sep) ! j =
             map (\<lambda>b. b\<lparr>tb_end := []\<rparr>) store ! j"
    by (cases "j = i") (simp_all add: set_end_def)
qed

lemma para_ends_Inl_iff: "para_ends category para store = Inl e \<longleftrightarrow> e = IndexError \<and> para = []"
  by (induction category para store rule: para_ends.induct) auto

lemma para_ends_total: "para \<noteq> [] \<Longrightarrow> \<exists>out. para_ends category para store = Inr out"
  using para_ends_Inl_iff [of category para store] by (cases "para_ends category para store") auto

lemma para_ends_frame:
  "para_ends category para store = Inr out \<Longrightarrow>
   length out = length store \<and>
   map (\<lambda>b. b\<lparr>tb_end := []\<rparr>) out = map (\<lambda>b. b\<lparr>tb_end := []\<rparr>) store \<and>
   (\<forall>j. j \<notin> (\<lambda>u. snd (snd u)) ` set para \<longrightarrow> out ! j = store ! j)"
proof (induction category para store arbitrary: out rule: para_ends.induct)
  case (1 category store)
  then show ?case by simp
next
  case (2 category u store)
  then show ?case by (auto simp: length_set_end set_end_frame nth_set_end_other)
next
  case (3 category u v us store)
  let ?s1 = "set_end store (snd (snd u))
               (word_separator category (snd (fst (snd u))) (fst (fst (snd v))))"
  from "3.prems" have "para_ends category (v # us) ?s1 = Inr out" by simp
  from "3.IH" [OF this] show ?case
    by (auto simp: length_set_end set_end_frame nth_set_end_other)
qed

lemma para_ends_last:
  "para_ends category para store = Inr out \<Longrightarrow>
   snd (snd (last para)) < length store \<Longrightarrow>
   tb_end (out ! snd (snd (last para))) = [10]"
proof (induction category para store arbitrary: out rule: para_ends.induct)
  case (1 category store)
  then show ?case by simp
next
  case (2 category u store)
  then show ?case by (auto simp: nth_set_end_same)
next
  case (3 category u v us store)
  then show ?case by (simp add: length_set_end)
qed

lemma paras_ends_Inl_iff:
  "paras_ends category ps store = Inl e \<longleftrightarrow> e = IndexError \<and> [] \<in> set ps"
proof (induction ps arbitrary: store)
  case Nil
  then show ?case by simp
next
  case (Cons p ps)
  show ?case
  proof (cases "para_ends category p store")
    case (Inl e')
    with para_ends_Inl_iff [of category p store e'] show ?thesis by auto
  next
    case (Inr s1)
    with para_ends_Inl_iff [of category p store IndexError] have "p \<noteq> []" by auto
    with Inr Cons [of s1] show ?thesis by auto
  qed
qed

lemma paras_ends_total: "[] \<notin> set ps \<Longrightarrow> \<exists>out. paras_ends category ps store = Inr out"
  using paras_ends_Inl_iff [of category ps store] by (cases "paras_ends category ps store") auto

lemma paras_ends_frame:
  "paras_ends category ps store = Inr out \<Longrightarrow>
   length out = length store \<and>
   map (\<lambda>b. b\<lparr>tb_end := []\<rparr>) out = map (\<lambda>b. b\<lparr>tb_end := []\<rparr>) store \<and>
   (\<forall>j. j \<notin> (\<lambda>u. snd (snd u)) ` set (concat ps) \<longrightarrow> out ! j = store ! j)"
proof (induction ps arbitrary: store)
  case Nil
  then show ?case by simp
next
  case (Cons p ps)
  from Cons.prems obtain s1 where p: "para_ends category p store = Inr s1"
    and r: "paras_ends category ps s1 = Inr out"
    by (auto split: sum.splits)
  from para_ends_frame [OF p] have p1: "length s1 = length store"
    and p2: "map (\<lambda>b. b\<lparr>tb_end := []\<rparr>) s1 = map (\<lambda>b. b\<lparr>tb_end := []\<rparr>) store"
    and p3: "\<And>j. j \<notin> (\<lambda>u. snd (snd u)) ` set p \<Longrightarrow> s1 ! j = store ! j"
    by auto
  from Cons.IH [OF r] have r1: "length out = length s1"
    and r2: "map (\<lambda>b. b\<lparr>tb_end := []\<rparr>) out = map (\<lambda>b. b\<lparr>tb_end := []\<rparr>) s1"
    and r3: "\<And>j. j \<notin> (\<lambda>u. snd (snd u)) ` set (concat ps) \<Longrightarrow> out ! j = s1 ! j"
    by auto
  have "\<forall>j. j \<notin> (\<lambda>u. snd (snd u)) ` set (concat (p # ps)) \<longrightarrow> out ! j = store ! j"
  proof (intro allI impI)
    fix j assume "j \<notin> (\<lambda>u. snd (snd u)) ` set (concat (p # ps))"
    then have "j \<notin> (\<lambda>u. snd (snd u)) ` set p" "j \<notin> (\<lambda>u. snd (snd u)) ` set (concat ps)"
      by auto
    with p3 r3 show "out ! j = store ! j" by simp
  qed
  with p1 p2 r1 r2 show ?case by simp
qed

lemma paras_ends_last:
  "paras_ends category ps store = Inr out \<Longrightarrow>
   distinct (map (\<lambda>u. snd (snd u)) (concat ps)) \<Longrightarrow>
   \<forall>u \<in> set (concat ps). snd (snd u) < length store \<Longrightarrow>
   \<forall>p \<in> set ps. p \<noteq> [] \<and> tb_end (out ! snd (snd (last p))) = [10]"
proof (induction ps arbitrary: store)
  case Nil
  then show ?case by simp
next
  case (Cons p ps)
  from Cons.prems(1) obtain s1 where p: "para_ends category p store = Inr s1"
    and r: "paras_ends category ps s1 = Inr out"
    by (auto split: sum.splits)
  from p para_ends_Inl_iff [of category p store IndexError] have pne: "p \<noteq> []" by auto
  then have lastp: "last p \<in> set p" by simp
  with Cons.prems(3) have lt: "snd (snd (last p)) < length store" by simp
  from para_ends_last [OF p lt] have e1: "tb_end (s1 ! snd (snd (last p))) = [10]" .
  from Cons.prems(2) have disj: "(\<lambda>u. snd (snd u)) ` set p \<inter> (\<lambda>u. snd (snd u)) ` set (concat ps) = {}"
    by auto
  with lastp have "snd (snd (last p)) \<notin> (\<lambda>u. snd (snd u)) ` set (concat ps)" by blast
  with paras_ends_frame [OF r] have "out ! snd (snd (last p)) = s1 ! snd (snd (last p))" by blast
  with e1 have here: "tb_end (out ! snd (snd (last p))) = [10]" by simp
  from para_ends_frame [OF p] have len: "length s1 = length store" by simp
  from Cons.prems(2) have d: "distinct (map (\<lambda>u. snd (snd u)) (concat ps))" by simp
  from Cons.prems(3) len have b: "\<forall>u \<in> set (concat ps). snd (snd u) < length s1" by simp
  from Cons.IH [OF r d b] pne here show ?case by simp
qed

lemma get_units_from_Inl_iff:
  "get_units_from i tbs = Inl e \<longleftrightarrow> e = IndexError \<and> (\<exists>b \<in> set tbs. tb_text b = [])"
proof (induction tbs arbitrary: i)
  case Nil
  then show ?case by simp
next
  case (Cons tb tbs)
  show ?case
  proof (cases "tb_text tb")
    case Nil
    then show ?thesis by auto
  next
    case (Cons c cs)
    show ?thesis
    proof (cases "get_units_from (Suc i) tbs")
      case (Inl e')
      with Cons.IH [of "Suc i"] Cons show ?thesis by auto
    next
      case (Inr us)
      with Cons.IH [of "Suc i"] Cons show ?thesis by auto
    qed
  qed
qed

lemma get_units_from_Inr:
  "get_units_from i tbs = Inr units \<Longrightarrow>
   map (\<lambda>u. snd (snd u)) units = [i ..< i + length tbs] \<and>
   map fst units = map tb_box tbs \<and>
   map (\<lambda>u. fst (snd u)) units = map (\<lambda>b. (hd (tb_text b), last (tb_text b))) tbs"
proof (induction tbs arbitrary: i units)
  case Nil
  then show ?case by simp
next
  case (Cons tb tbs)
  from Cons.prems obtain c cs us where t: "tb_text tb = c # cs"
    and r: "get_units_from (Suc i) tbs = Inr us"
    and u: "units = (tb_box tb, (c, last (c # cs)), i) # us"
    by (auto split: list.splits sum.splits)
  have "[i ..< i + length (tb # tbs)] = i # [Suc i ..< Suc i + length tbs]"
    by (simp del: upt_Suc add: upt_conv_Cons)
  with Cons.IH [OF r] t u show ?case by (simp del: upt_Suc)
qed

subsection \<open>\<open>run\<close>\<close>

lemma get_units_Inl_iff:
  "get_units tbs = Inl e \<longleftrightarrow> e = IndexError \<and> (\<exists>b \<in> set tbs. tb_text b = [])"
  by (simp add: get_units_def get_units_from_Inl_iff)

lemma get_units_Inr:
  "get_units tbs = Inr units \<Longrightarrow>
   map (\<lambda>u. snd (snd u)) units = [0 ..< length tbs] \<and> map fst units = map tb_box tbs"
  using get_units_from_Inr [of 0 tbs units] by (simp add: get_units_def)

lemma run_Inr_unfold:
  "run category tbs = Inr out \<Longrightarrow>
   \<exists>units ps. get_units tbs = Inr units \<and> parse_paras units = Inr ps \<and>
              paras_ends category ps tbs = Inr out"
  by (auto simp: run_def parse_def split: sum.splits)

lemma run_empty_text:
  "\<exists>b \<in> set tbs. tb_text b = [] \<Longrightarrow> run category tbs = Inl IndexError"
  using get_units_Inl_iff [of tbs IndexError] by (simp add: run_def)

lemma run_total:
  assumes "\<forall>b \<in> set tbs. tb_text b \<noteq> [] \<and> tb_box b \<noteq> []"
  shows "\<exists>out. run category tbs = Inr out"
proof -
  from assms get_units_Inl_iff [of tbs] obtain units where u: "get_units tbs = Inr units"
    by (cases "get_units tbs") auto
  from get_units_Inr [OF u] have "fst ` set units = tb_box ` set tbs"
    by (metis set_map)
  with assms have "\<forall>u \<in> set units. fst u \<noteq> []" by force
  from parse_paras_total [OF this] obtain ps where ps: "parse_paras units = Inr ps" by blast
  from parse_paras_Inr [OF ps] have "[] \<notin> set ps" by simp
  from paras_ends_total [OF this] obtain out where "paras_ends category ps tbs = Inr out" by blast
  with u ps show ?thesis by (simp add: run_def parse_def)
qed

lemma native_blocks_text: "\<forall>b \<in> set (native_blocks lines areas). tb_text b \<noteq> []"
  by (induction lines) (auto simp: Let_def split: prod.splits)

lemma ocr_image_text: "map tb_text (ocr_image items) = map oi_text items"
  by (simp add: ocr_image_def)

text \<open>
  Claim C10. \<open>run\<close> returns on every list of blocks whose texts and boxes are all
  non-empty, and on the empty list it returns the empty list. The condition on the text
  is needed: one block with an empty text makes \<open>run\<close> raise \<open>IndexError\<close>. The
  blocks the text-layer loop builds all have a non-empty text, while \<open>_ocr_image\<close>
  passes the text of every OCR result on as it is.
\<close>

theorem run_total_on_nonempty_text:
  "((\<forall>b \<in> set tbs. tb_text b \<noteq> [] \<and> tb_box b \<noteq> []) \<longrightarrow>
      (\<exists>out. run category tbs = Inr out)) \<and>
   run category [] = Inr [] \<and>
   ((\<exists>b \<in> set tbs. tb_text b = []) \<longrightarrow> run category tbs = Inl IndexError) \<and>
   (\<forall>b \<in> set (native_blocks lines areas). tb_text b \<noteq> []) \<and>
   map tb_text (ocr_image items) = map oi_text items"
proof (intro conjI impI)
  assume "\<forall>b \<in> set tbs. tb_text b \<noteq> [] \<and> tb_box b \<noteq> []"
  then show "\<exists>out. run category tbs = Inr out" by (rule run_total)
next
  show "run category [] = Inr []"
    by (simp add: run_def get_units_def parse_def parse_paras_def)
next
  assume "\<exists>b \<in> set tbs. tb_text b = []"
  then show "run category tbs = Inl IndexError" by (rule run_empty_text)
next
  show "\<forall>b \<in> set (native_blocks lines areas). tb_text b \<noteq> []" by (rule native_blocks_text)
next
  show "map tb_text (ocr_image items) = map oi_text items" by (rule ocr_image_text)
qed

theorem run_total_on_nonempty_text_witness:
  "tb_text world_block \<noteq> [] \<and> tb_box world_block \<noteq> [] \<and>
   tb_text hello_block \<noteq> [] \<and> tb_box hello_block \<noteq> [] \<and>
   (\<exists>out. run category_ascii [world_block, hello_block] = Inr out) \<and>
   (\<exists>b \<in> set (ocr_image [empty_text_item]). tb_text b = []) \<and>
   run category_ascii (ocr_image [empty_text_item]) = Inl IndexError \<and>
   extract_text category_ascii ''imageOnly'' [] [[empty_text_item]] [] = Inl IndexError \<and>
   extract_text category_ascii ''textOnly'' [empty_text_line] [] [] = Inr []"
proof -
  have a: "\<forall>b \<in> set [world_block, hello_block]. tb_text b \<noteq> [] \<and> tb_box b \<noteq> []"
    by (simp add: hello_block_def world_block_def rect_box_def)
  have b: "\<exists>b \<in> set (ocr_image [empty_text_item]). tb_text b = []"
    by (simp add: ocr_image_def empty_text_item_def)
  have c: "extract_text category_ascii ''imageOnly'' [] [[empty_text_item]] [] = Inl IndexError"
    by (simp add: empty_text_item_def rect_box_def eval_defs)
  have d: "extract_text category_ascii ''textOnly'' [empty_text_line] [] [] = Inr []"
    by (simp add: empty_text_line_def eval_defs)
  from run_total_on_nonempty_text [of "[world_block, hello_block]" category_ascii]
       run_total_on_nonempty_text [of "ocr_image [empty_text_item]" category_ascii]
       a b c d
  show ?thesis by simp
qed

lemma tb_end_erased_eq:
  "(a::text_block)\<lparr>tb_end := []\<rparr> = b\<lparr>tb_end := []\<rparr> \<Longrightarrow>
   a = b\<lparr>tb_end := tb_end a\<rparr> \<and> tb_box a = tb_box b \<and> tb_text a = tb_text b \<and>
   tb_from a = tb_from b \<and> tb_score a = tb_score b"
  by (cases a, cases b) auto

text \<open>
  Claim C9. When \<open>run\<close> returns, it returns the list it was given: the same number
  of blocks in the same positions (the sort reorders the units only), each block equal
  to the input block but for its \<open>end\<close>; \<open>box\<close>, \<open>text\<close>, \<open>from\<close> and
  \<open>score\<close> are unchanged.
\<close>

theorem run_changes_only_end:
  assumes "run category tbs = Inr out"
  shows "length out = length tbs \<and>
         (\<forall>i < length tbs.
            out ! i = (tbs ! i)\<lparr>tb_end := tb_end (out ! i)\<rparr> \<and>
            tb_box (out ! i) = tb_box (tbs ! i) \<and> tb_text (out ! i) = tb_text (tbs ! i) \<and>
            tb_from (out ! i) = tb_from (tbs ! i) \<and> tb_score (out ! i) = tb_score (tbs ! i))"
proof -
  from run_Inr_unfold [OF assms] obtain units ps where
    pe: "paras_ends category ps tbs = Inr out" by blast
  from paras_ends_frame [OF pe] have len: "length out = length tbs"
    and m: "map (\<lambda>b. b\<lparr>tb_end := []\<rparr>) out = map (\<lambda>b. b\<lparr>tb_end := []\<rparr>) tbs"
    by auto
  have "\<forall>i < length tbs. (out ! i)\<lparr>tb_end := []\<rparr> = (tbs ! i)\<lparr>tb_end := []\<rparr>"
  proof (intro allI impI)
    fix i assume i: "i < length tbs"
    from m have "map (\<lambda>b. b\<lparr>tb_end := []\<rparr>) out ! i = map (\<lambda>b. b\<lparr>tb_end := []\<rparr>) tbs ! i"
      by simp
    with i len show "(out ! i)\<lparr>tb_end := []\<rparr> = (tbs ! i)\<lparr>tb_end := []\<rparr>" by simp
  qed
  with len show ?thesis using tb_end_erased_eq by blast
qed

theorem run_changes_only_end_witness:
  "run category_ascii [world_block, hello_block] =
     Inr [world_block\<lparr>tb_end := [10]\<rparr>, hello_block\<lparr>tb_end := [32]\<rparr>] \<and>
   length [world_block\<lparr>tb_end := [10]\<rparr>, hello_block\<lparr>tb_end := [32]\<rparr>] =
     length [world_block, hello_block] \<and>
   tb_box ([world_block\<lparr>tb_end := [10]\<rparr>, hello_block\<lparr>tb_end := [32]\<rparr>] ! 0) = tb_box world_block \<and>
   tb_text ([world_block\<lparr>tb_end := [10]\<rparr>, hello_block\<lparr>tb_end := [32]\<rparr>] ! 1) = tb_text hello_block"
proof -
  have r: "run category_ascii [world_block, hello_block] =
     Inr [world_block\<lparr>tb_end := [10]\<rparr>, hello_block\<lparr>tb_end := [32]\<rparr>]"
    by (simp add: hello_block_def world_block_def rect_box_def eval_defs category_ascii_def)
  from run_changes_only_end [OF r] r show ?thesis by simp
qed

text \<open>
  Claim C4. When \<open>run\<close> returns, the paragraphs partition the units: the units refer
  to the positions \<open>0, ..., n - 1\<close> of the input, no paragraph is empty, the
  concatenation of the paragraphs has every unit exactly once, and it is the input
  sorted by top with a stable sort (sorted by top, units of equal top in their input
  order). The block of the last unit of every paragraph has the line break as its
  \<open>end\<close> in the returned list.
\<close>

theorem paragraphs_partition_input:
  assumes "run category tbs = Inr out"
  shows "\<exists>units ps.
           get_units tbs = Inr units \<and> parse_paras units = Inr ps \<and>
           map (\<lambda>u. snd (snd u)) units = [0 ..< length tbs] \<and>
           [] \<notin> set ps \<and>
           mset (concat ps) = mset units \<and> distinct (concat ps) \<and>
           concat ps = sort_key unit_top units \<and>
           sorted (map unit_top (concat ps)) \<and>
           (\<forall>k. filter (\<lambda>u. unit_top u = k) (concat ps) = filter (\<lambda>u. unit_top u = k) units) \<and>
           (\<forall>p \<in> set ps. snd (snd (last p)) < length out \<and>
                          tb_end (out ! snd (snd (last p))) = [10])"
proof -
  from run_Inr_unfold [OF assms] obtain units ps where u: "get_units tbs = Inr units"
    and ps: "parse_paras units = Inr ps" and pe: "paras_ends category ps tbs = Inr out"
    by blast
  from get_units_Inr [OF u] have refs: "map (\<lambda>u. snd (snd u)) units = [0 ..< length tbs]" by simp
  from parse_paras_Inr [OF ps] have c: "concat ps = sort_key unit_top units" and ne: "[] \<notin> set ps"
    by auto
  have dr: "distinct (map (\<lambda>u. snd (snd u)) units)" unfolding refs by simp
  then have du: "distinct units" by (simp add: distinct_map)
  have ms: "mset (concat ps) = mset units" unfolding c by simp
  have dc: "distinct (concat ps)" unfolding c using du by simp
  have "mset (map (\<lambda>u. snd (snd u)) (concat ps)) = mset (map (\<lambda>u. snd (snd u)) units)"
    using ms by (metis mset_map)
  with dr have drc: "distinct (map (\<lambda>u. snd (snd u)) (concat ps))"
    by (metis mset_eq_imp_distinct_iff)
  have bound: "\<forall>u \<in> set (concat ps). snd (snd u) < length tbs"
  proof
    fix x assume "x \<in> set (concat ps)"
    then have "x \<in> set units" unfolding c by simp
    then have "snd (snd x) \<in> set (map (\<lambda>u. snd (snd u)) units)" by simp
    then show "snd (snd x) < length tbs" unfolding refs by simp
  qed
  from paras_ends_frame [OF pe] have len: "length out = length tbs" by simp
  from paras_ends_last [OF pe drc bound]
  have last: "\<forall>p \<in> set ps. p \<noteq> [] \<and> tb_end (out ! snd (snd (last p))) = [10]" .
  have lastb: "\<forall>p \<in> set ps. snd (snd (last p)) < length out"
  proof
    fix p assume p: "p \<in> set ps"
    with last have "p \<noteq> []" by simp
    then have "last p \<in> set p" by simp
    with p have "last p \<in> set (concat ps)" by auto
    with bound have "snd (snd (last p)) < length tbs" by blast
    with len show "snd (snd (last p)) < length out" by simp
  qed
  have st: "\<forall>k. filter (\<lambda>u. unit_top u = k) (concat ps) = filter (\<lambda>u. unit_top u = k) units"
    unfolding c by (simp add: sort_key_stable)
  have so: "sorted (map unit_top (concat ps))" unfolding c by simp
  from u ps refs ne ms dc c so st last lastb show ?thesis by blast
qed

theorem paragraphs_partition_input_witness:
  "run category_ascii [world_block, footer_block, hello_block] =
     Inr [world_block\<lparr>tb_end := [10]\<rparr>, footer_block\<lparr>tb_end := [10]\<rparr>,
          hello_block\<lparr>tb_end := [32]\<rparr>] \<and>
   (\<exists>units ps.
      get_units [world_block, footer_block, hello_block] = Inr units \<and>
      parse_paras units = Inr ps \<and>
      mset (concat ps) = mset units \<and> distinct (concat ps) \<and>
      concat ps = sort_key unit_top units \<and>
      (\<forall>p \<in> set ps.
         tb_end ([world_block\<lparr>tb_end := [10]\<rparr>, footer_block\<lparr>tb_end := [10]\<rparr>,
                  hello_block\<lparr>tb_end := [32]\<rparr>] ! snd (snd (last p))) = [10]))"
proof -
  have r: "run category_ascii [world_block, footer_block, hello_block] =
     Inr [world_block\<lparr>tb_end := [10]\<rparr>, footer_block\<lparr>tb_end := [10]\<rparr>,
          hello_block\<lparr>tb_end := [32]\<rparr>]"
    by (simp add: hello_block_def world_block_def footer_block_def rect_box_def eval_defs category_ascii_def)
  from paragraphs_partition_input [OF r] r show ?thesis by blast
qed

end
